theory Spec2Isabelle
  imports Main
begin

section \<open>Byte buffers of the runtime\<close>

text \<open>
  A Node.js \<open>Buffer\<close> is a fixed-length array of bytes; it is modelled as a list of
  characters (one \<open>char\<close> per byte).  Sizes and offsets are non-negative integers in
  every call the server makes, so they are natural numbers here.  The functions below are
  the library operations the server calls, with the behaviour of the runtime at the range
  borders written out:
  \<^item> \<open>subarray\<close> clamps both ends to the buffer;
  \<^item> \<open>source.copy(target, targetStart, 0)\<close> copies as many bytes as fit and drops the rest;
  \<^item> \<open>copyWithin\<close> clamps its range to the buffer;
  \<^item> \<open>fill(value, offset, end)\<close> validates \<open>end\<close> against the length of the buffer
    and throws a \<open>RangeError\<close> (code \<open>ERR_OUT_OF_RANGE\<close>) when \<open>end\<close> is larger.
\<close>

type_synonym Buffer = "char list"

datatype error =
    HTTPError nat string
  | RangeError
  | TypeError
  | Error string

definition alloc :: "nat \<Rightarrow> Buffer" where
  "alloc n = replicate n (CHR 0x00)"

definition subarray :: "Buffer \<Rightarrow> nat \<Rightarrow> nat \<Rightarrow> Buffer" where
  "subarray b s e = take (e - s) (drop s b)"

definition buffer_copy :: "Buffer \<Rightarrow> Buffer \<Rightarrow> nat \<Rightarrow> Buffer" where
  "buffer_copy src tgt targetStart =
     (let nb = min (length src) (length tgt - targetStart)
      in take targetStart tgt @ take nb src @ drop (targetStart + nb) tgt)"

definition copyWithin :: "Buffer \<Rightarrow> nat \<Rightarrow> nat \<Rightarrow> nat \<Rightarrow> Buffer" where
  "copyWithin b target start end' =
     (let n = length b;
          to = min target n;
          from = min start n;
          final = min end' n;
          count = min (final - from) (n - to)
      in take to b @ take count (drop from b) @ drop (to + count) b)"

definition buffer_fill :: "Buffer \<Rightarrow> char \<Rightarrow> nat \<Rightarrow> nat \<Rightarrow> error + Buffer" where
  "buffer_fill b v offset end' =
     (if length b < end' then Inl RangeError
      else if end' \<le> offset then Inr b
      else Inr (take offset b @ replicate (end' - offset) v @ drop end' b))"

section \<open>The dynamic buffer\<close>

text \<open>
  \<open>DynBuf\<close> of the source: the fields \<open>data\<close>, \<open>length\<close> and \<open>begin\<close> carry the prefix
  \<open>buf_\<close> here.  The capacity is the length of \<open>data\<close>.
\<close>

record DynBuf =
  buf_data :: Buffer
  buf_length :: nat
  buf_begin :: nat

text \<open>
  The growth loop of \<open>bufPush\<close>: \<open>cap = max(data.length, 32); while (cap < newLen) cap *= 2\<close>.
  The maximum with 32 is applied on entry of every round; from the second round on it
  changes nothing, since the capacity is then at least 64.
\<close>

function grow :: "nat \<Rightarrow> nat \<Rightarrow> nat" where
  "grow cap newLen =
     (if max cap 32 < newLen then grow (max cap 32 * 2) newLen else max cap 32)"
  by pat_completeness auto
termination
  by (relation "measure (\<lambda>(cap, newLen). newLen - max cap 32)") auto

definition bufPush :: "DynBuf \<Rightarrow> Buffer \<Rightarrow> DynBuf" where
  "bufPush buf d =
     (let newLen = buf_length buf + length d;
          data1 = (if int (length (buf_data buf)) - int (buf_begin buf) < int newLen
                   then buffer_copy (buf_data buf) (alloc (grow (length (buf_data buf)) newLen)) 0
                   else buf_data buf)
      in \<lparr>buf_data = buffer_copy d data1 (buf_length buf + buf_begin buf),
          buf_length = newLen,
          buf_begin = buf_begin buf\<rparr>)"

text \<open>
  \<open>bufPop\<close> returns the buffer as the call leaves it and the exception it throws, if
  any.  The test \<open>buf.begin > buf.data.length / 2\<close> divides in floating point, so it
  reads \<open>2 * begin > data.length\<close> on integers.  When \<open>fill\<close> throws, \<open>begin\<close> has been
  advanced and the bytes moved, while \<open>begin\<close> is not reset and \<open>length\<close> not decreased.
  Every call of the server passes \<open>count \<le> length\<close>.
\<close>

definition bufPop :: "DynBuf \<Rightarrow> nat \<Rightarrow> DynBuf \<times> error option" where
  "bufPop buf count =
     (let begin1 = buf_begin buf + count in
      if length (buf_data buf) < 2 * begin1
      then (let data1 = copyWithin (buf_data buf) 0 begin1 (begin1 + buf_length buf) in
            case buffer_fill data1 (CHR 0x00) (buf_length buf) (buf_length buf + begin1) of
              Inl e \<Rightarrow> (\<lparr>buf_data = data1, buf_length = buf_length buf, buf_begin = begin1\<rparr>, Some e)
            | Inr data2 \<Rightarrow>
                (\<lparr>buf_data = data2, buf_length = buf_length buf - count, buf_begin = 0\<rparr>, None))
      else (\<lparr>buf_data = buf_data buf, buf_length = buf_length buf - count, buf_begin = begin1\<rparr>,
            None))"

definition emptyBuf :: DynBuf where
  "emptyBuf = \<lparr>buf_data = alloc 0, buf_length = 0, buf_begin = 0\<rparr>"


section \<open>Searching and splitting\<close>

text \<open>
  \<open>buf.indexOf(needle, from)\<close> is the first offset at or after \<open>from\<close> where \<open>needle\<close>
  occurs, \<open>None\<close> standing for the result \<open>-1\<close>; \<open>buf_includes\<close> is the test \<open>includes\<close>.
\<close>

fun indexOf0 :: "Buffer \<Rightarrow> Buffer \<Rightarrow> nat option" where
  "indexOf0 needle [] = (if needle = [] then Some 0 else None)"
| "indexOf0 needle (x # xs) =
     (if take (length needle) (x # xs) = needle then Some 0
      else map_option Suc (indexOf0 needle xs))"

definition indexOf :: "Buffer \<Rightarrow> Buffer \<Rightarrow> nat \<Rightarrow> nat option" where
  "indexOf b needle from = map_option (\<lambda>i. i + from) (indexOf0 needle (drop from b))"

definition buf_includes :: "Buffer \<Rightarrow> Buffer \<Rightarrow> bool" where
  "buf_includes b needle = (indexOf b needle 0 \<noteq> None)"

section \<open>Strings\<close>

text \<open>
  The server converts buffers to strings with \<open>toString()\<close> and back with
  \<open>Buffer.from\<close>.  \<open>toString()\<close> decodes UTF-8 and puts the replacement character
  U+FFFD for every ill-formed part of the input; \<open>Buffer.from\<close> encodes the string in
  UTF-8 again.  A string is represented here by its UTF-8 encoding, so \<open>Buffer.from\<close>
  of a string is the string itself, and \<open>toString\<close> is the decoder written on that
  representation: a well-formed sequence is passed on as it is, and the three bytes
  EF BF BD (U+FFFD) stand for an ill-formed one.  An ASCII character is one byte, and
  that byte occurs nowhere else in a UTF-8 encoding, so splitting a string at an ASCII
  separator, testing a piece for emptiness or for a trailing space, and comparing it
  with an ASCII literal are the same on the representation.

  The decoder is the one of the Encoding Standard.  Its state is the bytes of the
  sequence begun (\<open>seen\<close>), the number of bytes still needed and the bounds of the next
  byte; a byte out of the bounds ends the sequence begun with U+FFFD and is then
  decoded as a first byte.
\<close>

definition replacement :: Buffer where
  "replacement = [CHR 0xEF, CHR 0xBF, CHR 0xBD]"

fun utf8_decode :: "Buffer \<Rightarrow> nat \<Rightarrow> nat \<Rightarrow> nat \<Rightarrow> Buffer \<Rightarrow> string" where
  "utf8_decode seen needed lower upper [] = (if needed = 0 then [] else replacement)"
| "utf8_decode seen needed lower upper (b # bs) =
     (let n = (of_char b :: nat) in
      if needed \<noteq> 0 \<and> lower \<le> n \<and> n \<le> upper
      then (if needed = 1 then seen @ [b] @ utf8_decode [] 0 0x80 0xBF bs
            else utf8_decode (seen @ [b]) (needed - 1) 0x80 0xBF bs)
      else (if needed \<noteq> 0 then replacement else []) @
           (if n \<le> 0x7F then b # utf8_decode [] 0 0x80 0xBF bs
            else if 0xC2 \<le> n \<and> n \<le> 0xDF then utf8_decode [b] 1 0x80 0xBF bs
            else if 0xE0 \<le> n \<and> n \<le> 0xEF
            then utf8_decode [b] 2 (if n = 0xE0 then 0xA0 else 0x80)
                   (if n = 0xED then 0x9F else 0xBF) bs
            else if 0xF0 \<le> n \<and> n \<le> 0xF4
            then utf8_decode [b] 3 (if n = 0xF0 then 0x90 else 0x80)
                   (if n = 0xF4 then 0x8F else 0xBF) bs
            else replacement @ utf8_decode [] 0 0x80 0xBF bs))"

definition toString :: "Buffer \<Rightarrow> string" where
  "toString b = utf8_decode [] 0 0x80 0xBF b"

text \<open>Text all of whose bytes are ASCII characters; decoding leaves it as it is.\<close>

definition is_ascii :: "Buffer \<Rightarrow> bool" where
  "is_ascii b = list_all (\<lambda>c. (of_char c :: nat) < 128) b"

text \<open>
  \<open>s.split(c)\<close> cuts at every occurrence of the separator; \<open>s.split(c, n)\<close> keeps the
  first \<open>n\<close> pieces of that list (the rest of the string is dropped, not appended).
\<close>

function split :: "char \<Rightarrow> string \<Rightarrow> string list" where
  "split c s =
     takeWhile (\<lambda>x. x \<noteq> c) s #
       (case dropWhile (\<lambda>x. x \<noteq> c) s of [] \<Rightarrow> [] | _ # rest \<Rightarrow> split c rest)"
  by pat_completeness auto
termination
proof (relation "measure (\<lambda>(c, s). length s)")
  show "wf (measure (\<lambda>(c, s). length s))" by simp
next
  fix c :: char and s :: string and x rest
  assume "dropWhile (\<lambda>x. x \<noteq> c) s = x # rest"
  then have "length (x # rest) \<le> length s"
    using length_dropWhile_le [of "\<lambda>x. x \<noteq> c" s] by simp
  then show "((c, rest), (c, s)) \<in> measure (\<lambda>(c, s). length s)" by simp
qed

definition split_limit :: "char \<Rightarrow> nat \<Rightarrow> string \<Rightarrow> string list" where
  "split_limit c n s = take n (split c s)"

definition endsWith :: "string \<Rightarrow> string \<Rightarrow> bool" where
  "endsWith s suffix = (length suffix \<le> length s \<and> drop (length s - length suffix) s = suffix)"

definition toLowerCase_chr :: "char \<Rightarrow> char" where
  "toLowerCase_chr c =
     (let n = (of_char c :: nat) in if 65 \<le> n \<and> n \<le> 90 then char_of (n + 32) else c)"

text \<open>
  \<open>toLowerCase\<close> folds the letters A to Z, and the Kelvin sign U+212A (the bytes
  E2 84 AA) to the letter k, the one character outside ASCII whose lower-case form is
  an ASCII letter.  The other characters outside ASCII are left as they are: their
  lower-case forms lie outside ASCII too, so the result is equal to the lower-case form
  of an ASCII string exactly when the runtime's is.
\<close>

fun toLowerCase :: "string \<Rightarrow> string" where
  "toLowerCase (a # b # c # s) =
     (if a = CHR 0xE2 \<and> b = CHR 0x84 \<and> c = CHR 0xAA then CHR ''k'' # toLowerCase s
      else toLowerCase_chr a # toLowerCase (b # c # s))"
| "toLowerCase (a # s) = toLowerCase_chr a # toLowerCase s"
| "toLowerCase [] = []"

definition CRLF :: Buffer where
  "CRLF = [CHR 0x0D, CHR 0x0A]"

section \<open>The request parser\<close>

record HTTPReq =
  req_method :: string
  req_uri :: Buffer
  req_version :: string
  req_headers :: "Buffer list"

definition kMaxHeaderLen :: nat where
  "kMaxHeaderLen = 1024 * 8"

definition kHttpMethods :: "string list" where
  "kHttpMethods = [''GET'', ''POST'', ''PUT'', ''DELETE'', ''HEAD'', ''OPTIONS'', ''TRACE'', ''CONNECT'']"

text \<open>
  The loop of \<open>splitlines\<close>, with its two variables \<open>begin\<close> and \<open>lines\<close>.  A separator
  found at offset 0 of the data produces no line.
\<close>

function splitlines_loop :: "Buffer \<Rightarrow> nat \<Rightarrow> Buffer list \<Rightarrow> Buffer list" where
  "splitlines_loop d begin0 lines =
     (if begin0 < length d then
        (case indexOf d CRLF begin0 of
           None \<Rightarrow> lines @ [subarray d begin0 (length d)]
         | Some idx \<Rightarrow>
             splitlines_loop d (idx + 2)
               (if idx \<noteq> 0 then lines @ [subarray d begin0 idx] else lines))
      else lines)"
  by pat_completeness auto
termination
  by (relation "measure (\<lambda>(d, begin0, lines). length d - begin0)") (auto simp: indexOf_def)

definition splitlines :: "Buffer \<Rightarrow> Buffer list" where
  "splitlines d = splitlines_loop d 0 []"

definition validateURI :: "Buffer \<Rightarrow> string \<Rightarrow> bool" where
  "validateURI uri m =
     (if uri = [] \<or> buf_includes uri '' '' then False
      else if m = ''CONNECT'' \<and> \<not> buf_includes uri '':'' then False
      else if m = ''OPTIONS'' \<and> length uri \<noteq> 1 then False
      else True)"

text \<open>
  \<open>parseRequestLine\<close> splits the decoded line; the URI it validates and returns is
  \<open>Buffer.from(elements[1])\<close>, the second piece encoded again.
  \<open>elements[2].split("/")[1]\<close> is \<open>undefined\<close> when the third token has no \<open>/\<close>;
  \<open>undefined\<close> differs from both version strings.
\<close>

definition parseRequestLine :: "Buffer \<Rightarrow> error + (string \<times> Buffer \<times> string)" where
  "parseRequestLine arg0 =
     (let elements = split (CHR '' '') (toString arg0) in
      if length elements \<noteq> 3 then Inl (HTTPError 400 ''Bad request line'')
      else let m = elements ! 0 in
        if m \<notin> set kHttpMethods then Inl (HTTPError 405 ''Method not allowed'')
        else let uri = elements ! 1 in
          if \<not> validateURI uri m then Inl (HTTPError 400 ''Bad URI'')
          else (case split (CHR ''/'') (elements ! 2) of
                  _ # v # _ \<Rightarrow>
                    if v \<noteq> ''1.0'' \<and> v \<noteq> ''1.1''
                    then Inl (HTTPError 505 ''HTTP version not supported'')
                    else Inr (m, uri, v)
                | _ \<Rightarrow> Inl (HTTPError 505 ''HTTP version not supported'')))"

definition validateHeader :: "Buffer \<Rightarrow> bool" where
  "validateHeader h =
     (if h = [] \<or> \<not> buf_includes h '':'' then False
      else let elements = split_limit (CHR '':'') 2 (toString h) in
        (case elements of
           [k, v] \<Rightarrow> (if k = [] \<or> v = [] \<or> endsWith k '' '' then False else True)
         | _ \<Rightarrow> False))"

text \<open>The loop of \<open>parseHTTPReq\<close> over the header lines: the first bad one throws.\<close>

fun headers_loop :: "Buffer list \<Rightarrow> Buffer list \<Rightarrow> error + Buffer list" where
  "headers_loop [] headers = Inr headers"
| "headers_loop (h # rest) headers =
     (if \<not> validateHeader h then Inl (HTTPError 400 ''Bad header'')
      else headers_loop rest (headers @ [h]))"

text \<open>
  \<open>parseHTTPReq\<close>: the request line is \<open>lines[0]\<close> (a \<open>TypeError\<close> when there is no
  line at all), the header lines are \<open>lines[1]\<close> to \<open>lines[lines.length - 2]\<close>.
\<close>

definition parseHTTPReq :: "Buffer \<Rightarrow> error + HTTPReq" where
  "parseHTTPReq d =
     (case splitlines d of
        [] \<Rightarrow> Inl TypeError
      | l0 # ls \<Rightarrow>
          (case parseRequestLine l0 of
             Inl e \<Rightarrow> Inl e
           | Inr (m, uri, v) \<Rightarrow>
               (case headers_loop (butlast ls) [] of
                  Inl e \<Rightarrow> Inl e
                | Inr headers \<Rightarrow>
                    Inr \<lparr>req_method = m, req_uri = uri, req_version = v, req_headers = headers\<rparr>)))"

section \<open>The message framer\<close>

text \<open>
  \<open>cutMessage\<close> returns the buffer as the call leaves it, and either the exception
  thrown or the result (\<open>None\<close> for \<open>null\<close>).
\<close>

definition cutMessage :: "DynBuf \<Rightarrow> DynBuf \<times> (error + HTTPReq option)" where
  "cutMessage buf =
     (let lastIndexInclude = buf_begin buf + buf_length buf in
      case indexOf (subarray (buf_data buf) (buf_begin buf) lastIndexInclude) (CRLF @ CRLF) 0 of
        None \<Rightarrow>
          if kMaxHeaderLen < buf_length buf then (buf, Inl (HTTPError 413 ''Header too long''))
          else (buf, Inr None)
      | Some idx \<Rightarrow>
          (case parseHTTPReq (subarray (buf_data buf) (buf_begin buf) (idx + buf_begin buf + 4)) of
             Inl e \<Rightarrow> (buf, Inl e)
           | Inr msg \<Rightarrow>
               (case bufPop buf (idx + 4) of
                  (buf1, Some e) \<Rightarrow> (buf1, Inl e)
                | (buf1, None) \<Rightarrow> (buf1, Inr (Some msg)))))"


section \<open>Header fields and numbers\<close>

text \<open>
  \<open>getField\<close>: \<open>const [k, v] = h.toString().split(":")\<close> binds \<open>v\<close> to the second
  piece of the decoded line, \<open>undefined\<close> when the line has no colon, and
  \<open>Buffer.from(undefined)\<close> throws a \<open>TypeError\<close>; the value returned is \<open>Buffer.from(v)\<close>.
\<close>

fun getField :: "Buffer list \<Rightarrow> string \<Rightarrow> error + Buffer option" where
  "getField [] key = Inr None"
| "getField (h # hs) key =
     (case split (CHR '':'') (toString h) of
        [] \<Rightarrow> Inl TypeError
      | k # rest \<Rightarrow>
          if toLowerCase k = toLowerCase key
          then (case rest of [] \<Rightarrow> Inl TypeError | v # _ \<Rightarrow> Inr (Some v))
          else getField hs key)"

text \<open>
  The argument of \<open>parseDec\<close> is the header value decoded as \<open>latin1\<close>: one character
  per byte, so this string is the list of its bytes, and of the white space of the
  language it can hold the ASCII ones and the no-break space U+00A0.

  \<open>parseInt(s, 10)\<close>: leading white space is skipped, then an optional sign is read,
  then the longest run of decimal digits; without a digit the result is \<open>NaN\<close>, here
  \<open>None\<close>.  The result is a double: an integer of more than 53 bits is rounded to 53
  bits, to the nearest, a tie to the even one (\<open>toDouble\<close>).  A number too large for a
  double (from about 1.8e308 on) is \<open>Infinity\<close> in the runtime and has no counterpart
  here.  In \<open>parseDec\<close>, \<open>parseInt(arg0, 10) || NaN\<close> replaces every falsy number by
  \<open>NaN\<close>, and zero is falsy.
\<close>

definition isWhiteSpace :: "char \<Rightarrow> bool" where
  "isWhiteSpace c = ((of_char c :: nat) \<in> set [9, 10, 11, 12, 13, 32, 160])"

function exponent53 :: "int \<Rightarrow> nat" where
  "exponent53 n = (if n < 2 ^ 53 then 0 else Suc (exponent53 (n div 2)))"
  by pat_completeness auto
termination
  by (relation "measure nat") auto

definition toDouble :: "int \<Rightarrow> int" where
  "toDouble n =
     (let e = exponent53 n; q = n div 2 ^ e; r = n mod 2 ^ e in
      if 2 ^ e < 2 * r \<or> (2 * r = 2 ^ e \<and> odd q) then (q + 1) * 2 ^ e else q * 2 ^ e)"

definition isDigit :: "char \<Rightarrow> bool" where
  "isDigit c = (48 \<le> (of_char c :: nat) \<and> (of_char c :: nat) \<le> 57)"

definition digits_value :: "string \<Rightarrow> int" where
  "digits_value z = foldl (\<lambda>a c. 10 * a + (of_char c - 48)) 0 z"

definition parseInt :: "string \<Rightarrow> int option" where
  "parseInt s =
     (let S = dropWhile isWhiteSpace s;
          sign = (case S of c # _ \<Rightarrow> if c = CHR ''-'' then - 1 else 1 | [] \<Rightarrow> (1 :: int));
          S1 = (case S of c # r \<Rightarrow> if c = CHR ''-'' \<or> c = CHR ''+'' then r else S | [] \<Rightarrow> S);
          Z = takeWhile isDigit S1
      in if Z = [] then None else Some (sign * toDouble (digits_value Z)))"

definition parseDec :: "string \<Rightarrow> int option" where
  "parseDec arg0 =
     (case parseInt arg0 of None \<Rightarrow> None | Some n \<Rightarrow> if n = 0 then None else Some n)"

section \<open>The connection\<close>

text \<open>
  \<open>TCPConn\<close>: \<open>pending\<close> are the chunks the socket's \<open>data\<close> events will deliver, in
  order, followed by its \<open>end\<close> event; \<open>written\<close> are the chunks handed to
  \<open>socket.write\<close>; \<open>conn_err\<close> is the field \<open>err\<close>.  \<open>soRead\<close> resolves to the next chunk,
  or to the empty buffer once the stream has ended; both operations reject when
  \<open>err\<close> is set.
\<close>

record TCPConn =
  pending :: "Buffer list"
  written :: "Buffer list"
  conn_err :: "error option"

definition soRead :: "TCPConn \<Rightarrow> TCPConn \<times> (error + Buffer)" where
  "soRead conn =
     (case conn_err conn of
        Some e \<Rightarrow> (conn, Inl e)
      | None \<Rightarrow>
          (case pending conn of
             [] \<Rightarrow> (conn, Inr [])
           | d # ds \<Rightarrow> (conn\<lparr>pending := ds\<rparr>, Inr d)))"

definition soWrite :: "TCPConn \<Rightarrow> Buffer \<Rightarrow> TCPConn \<times> error option" where
  "soWrite conn d =
     (case conn_err conn of
        Some e \<Rightarrow> (conn, Some e)
      | None \<Rightarrow> (conn\<lparr>written := written conn @ [d]\<rparr>, None))"

section \<open>Body readers\<close>

text \<open>
  A \<open>BodyReader\<close> of the source is an object with the field \<open>length\<close> and the closure
  \<open>read\<close>.  The two closures the server builds are the two constructors here, each with
  the variables its closure captures and updates: \<open>FromMemory arg0 done\<close>, and
  \<open>FromConnLength length bodyLen\<close> (the declared length, and the remaining length that
  \<open>read\<close> decreases).  The connection and the dynamic buffer, which the closure of
  \<open>readerFromConnLength\<close> shares with the connection loop, are passed to \<open>read\<close> and
  returned by it; the constructor functions take them as the source does and keep
  nothing of them.
\<close>

datatype BodyReader = FromMemory Buffer bool | FromConnLength nat nat

fun reader_length :: "BodyReader \<Rightarrow> int" where
  "reader_length (FromMemory arg0 done) = int (length arg0)"
| "reader_length (FromConnLength n bodyLen) = int n"

definition readerFromMemory :: "Buffer \<Rightarrow> BodyReader" where
  "readerFromMemory arg0 = FromMemory arg0 False"

definition readerFromConnLength :: "TCPConn \<Rightarrow> DynBuf \<Rightarrow> nat \<Rightarrow> BodyReader" where
  "readerFromConnLength conn buf bodyLen = FromConnLength bodyLen bodyLen"

definition readerFromChunked :: "TCPConn \<Rightarrow> DynBuf \<Rightarrow> error + BodyReader" where
  "readerFromChunked conn buf = Inl (Error ''Function not implemented.'')"

record world =
  w_conn :: TCPConn
  w_buf :: DynBuf

text \<open>
  \<open>read\<close> returns the connection and buffer as the call leaves them, the reader with
  its updated variables, and the chunk or the exception.
\<close>

fun read :: "BodyReader \<Rightarrow> world \<Rightarrow> world \<times> BodyReader \<times> (error + Buffer)" where
  "read (FromMemory arg0 done) w =
     (if done then (w, FromMemory arg0 done, Inr [])
      else (w, FromMemory arg0 True, Inr arg0))"
| "read (FromConnLength n bodyLen) w =
     (if bodyLen = 0 then (w, FromConnLength n bodyLen, Inr [])
      else
        (case (if buf_length (w_buf w) = 0
               then (case soRead (w_conn w) of
                       (c1, Inl e) \<Rightarrow> (w\<lparr>w_conn := c1\<rparr>, Some e)
                     | (c1, Inr d) \<Rightarrow>
                         (\<lparr>w_conn = c1, w_buf = bufPush (w_buf w) d\<rparr>,
                          if d = [] then Some (HTTPError 400 ''Unexpected EOF'') else None))
               else (w, None)) of
           (w1, Some e) \<Rightarrow> (w1, FromConnLength n bodyLen, Inl e)
         | (w1, None) \<Rightarrow>
             (let availableData = min (buf_length (w_buf w1)) bodyLen;
                  bodyLen1 = bodyLen - availableData;
                  body = subarray (buf_data (w_buf w1)) (buf_begin (w_buf w1))
                           (buf_begin (w_buf w1) + availableData)
              in case bufPop (w_buf w1) availableData of
                   (b2, Some e) \<Rightarrow> (w1\<lparr>w_buf := b2\<rparr>, FromConnLength n bodyLen1, Inl e)
                 | (b2, None) \<Rightarrow> (w1\<lparr>w_buf := b2\<rparr>, FromConnLength n bodyLen1, Inr body))))"

definition readerFromReq :: "TCPConn \<Rightarrow> DynBuf \<Rightarrow> HTTPReq \<Rightarrow> error + BodyReader" where
  "readerFromReq conn buf req =
     (case getField (req_headers req) ''Content-Length'' of
        Inl e \<Rightarrow> Inl e
      | Inr contentLength \<Rightarrow>
          (case (case contentLength of
                   None \<Rightarrow> Inr (- 1)
                 | Some c \<Rightarrow>
                     (case parseDec c of
                        None \<Rightarrow> Inl (HTTPError 400 ''Bad Content-Length'')
                      | Some n \<Rightarrow> Inr n)) of
             Inl e \<Rightarrow> Inl e
           | Inr bodyLen \<Rightarrow>
               (let bodyAllowed = \<not> (req_method req = ''GET'' \<or> req_method req = ''HEAD'') in
                case getField (req_headers req) ''Transfer-Encoding'' of
                  Inl e \<Rightarrow> Inl e
                | Inr te \<Rightarrow>
                    (let chunked = (case te of None \<Rightarrow> False | Some t \<Rightarrow> t = ''chunked'') in
                     if \<not> bodyAllowed \<and> (0 < bodyLen \<or> chunked)
                     then Inl (HTTPError 400 ''Body not allowed'')
                     else (let bodyLen1 = (if \<not> bodyAllowed then 0 else bodyLen) in
                           if chunked then readerFromChunked conn buf
                           else if 0 \<le> bodyLen1
                           then Inr (readerFromConnLength conn buf (nat bodyLen1))
                           else Inl (Error ''Not implemented''))))))"


section \<open>Responses\<close>

record HTTPRes =
  res_code :: nat
  res_headers :: "Buffer list"
  res_body :: BodyReader

definition kReasons :: "(nat \<times> string) list" where
  "kReasons =
   [(100, ''Continue''), (101, ''Switching Protocols''), (200, ''OK''), (201, ''Created''),
     (202, ''Accepted''), (203, ''Non-Authoritative Information''), (204, ''No Content''),
     (205, ''Reset Content''), (206, ''Partial Content''), (300, ''Multiple Choices''),
     (301, ''Moved Permanently''), (302, ''Found''), (303, ''See Other''),
     (304, ''Not Modified''), (305, ''Use Proxy''), (307, ''Temporary Redirect''),
     (308, ''Permanent Redirect''), (400, ''Bad Request''), (401, ''Unauthorized''),
     (402, ''Payment Required''), (403, ''Forbidden''), (404, ''Not Found''),
     (405, ''Method Not Allowed''), (406, ''Not Acceptable''),
     (407, ''Proxy Authentication Required''), (408, ''Request Timeout''),
     (409, ''Conflict''), (410, ''Gone''), (411, ''Length Required''),
     (412, ''Precondition Failed''), (413, ''Payload Too Large''), (414, ''URI Too Long''),
     (415, ''Unsupported Media Type''), (416, ''Range Not Satisfiable''),
     (417, ''Expectation Failed''), (418, ''I'm a teapot''),
     (421, ''Misdirected Request''), (422, ''Unprocessable Entity''), (423, ''Locked''),
     (424, ''Failed Dependency''), (425, ''Too Early''), (426, ''Upgrade Required''),
     (428, ''Precondition Required''), (429, ''Too Many Requests''),
     (431, ''Request Header Fields Too Large''), (451, ''Unavailable For Legal Reasons''),
     (500, ''Internal Server Error''), (501, ''Not Implemented''), (502, ''Bad Gateway''),
     (503, ''Service Unavailable''), (504, ''Gateway Timeout''),
     (505, ''HTTP Version Not Supported''), (506, ''Variant Also Negotiates''),
     (507, ''Insufficient Storage''), (508, ''Loop Detected''), (510, ''Not Extended''),
     (511, ''Network Authentication Required'')]"

definition getReasonFromCode :: "nat \<Rightarrow> string" where
  "getReasonFromCode code = (case map_of kReasons code of Some r \<Rightarrow> r | None \<Rightarrow> ''Unknown'')"

text \<open>The decimal form a template string gives a non-negative integer.\<close>

function decimal :: "nat \<Rightarrow> string" where
  "decimal n = (if n < 10 then [char_of (48 + n)] else decimal (n div 10) @ [char_of (48 + n mod 10)])"
  by pat_completeness auto
termination
  by (relation "measure id") auto

fun join :: "string \<Rightarrow> string list \<Rightarrow> string" where
  "join sep [] = []"
| "join sep [x] = x"
| "join sep (x # y # ys) = x @ sep @ join sep (y # ys)"

definition encodeHTTPRes :: "HTTPRes \<Rightarrow> Buffer" where
  "encodeHTTPRes res =
     (let statusLine = ''HTTP/1.1 '' @ decimal (res_code res) @ '' '' @
                         getReasonFromCode (res_code res) @ CRLF;
          headers = join CRLF (map toString (res_headers res)) @ CRLF @ CRLF
      in statusLine @ headers)"

text \<open>
  A read that produces a non-empty chunk brings its reader nearer to its end:
  \<open>remaining\<close> is the measure that ends the two loops that read a body to its end.
\<close>

fun remaining :: "BodyReader \<Rightarrow> nat" where
  "remaining (FromMemory arg0 done) = (if done then 0 else 1)"
| "remaining (FromConnLength n bodyLen) = bodyLen"

lemma read_remaining:
  assumes "read r w = (w1, r1, Inr d)" and "d \<noteq> []"
  shows "remaining r1 < remaining r"
proof (cases r)
  case (FromMemory arg0 dn)
  with assms show ?thesis by (auto split: if_splits)
next
  case (FromConnLength n bodyLen)
  with assms show ?thesis
    by (auto simp: Let_def subarray_def split: if_splits prod.splits option.splits sum.splits)
qed

text \<open>The loop of \<open>writeHTTPRes\<close> that writes the body, chunk by chunk.\<close>

function write_body :: "BodyReader \<Rightarrow> world \<Rightarrow> world \<times> BodyReader \<times> error option" where
  "write_body body w =
     (case read body w of
        (w1, body1, Inl e) \<Rightarrow> (w1, body1, Some e)
      | (w1, body1, Inr d) \<Rightarrow>
          if d = [] then (w1, body1, None)
          else (case soWrite (w_conn w1) d of
                  (c2, Some e) \<Rightarrow> (w1\<lparr>w_conn := c2\<rparr>, body1, Some e)
                | (c2, None) \<Rightarrow> write_body body1 (w1\<lparr>w_conn := c2\<rparr>)))"
  by pat_completeness auto
termination
  by (relation "measure (\<lambda>(body, w). remaining body)") (auto dest: read_remaining [OF sym])

text \<open>
  \<open>writeHTTPRes\<close> returns, with the connection and buffer, the body reader as the
  reads have left it.
\<close>

definition writeHTTPRes :: "world \<Rightarrow> HTTPRes \<Rightarrow> world \<times> BodyReader \<times> error option" where
  "writeHTTPRes w res =
     (if reader_length (res_body res) < 0 then (w, res_body res, Some (Error ''not implemented''))
      else
        (let res1 = res\<lparr>res_headers := res_headers res @
                      [''Content-Length: '' @ decimal (nat (reader_length (res_body res)))]\<rparr>
         in case soWrite (w_conn w) (encodeHTTPRes res1) of
              (c1, Some e) \<Rightarrow> (w\<lparr>w_conn := c1\<rparr>, res_body res, Some e)
            | (c1, None) \<Rightarrow> write_body (res_body res) (w\<lparr>w_conn := c1\<rparr>)))"

definition handleReq :: "HTTPReq \<Rightarrow> BodyReader \<Rightarrow> HTTPRes" where
  "handleReq req reqBody =
     \<lparr>res_code = 200,
      res_headers = [''Server: Nazarick''],
      res_body = (if req_uri req = ''/echo'' then reqBody
                  else readerFromMemory (''Hello From Nazarick'' @ [CHR 0x0A]))\<rparr>"

section \<open>The connection loop\<close>

text \<open>The loop of \<open>serveClient\<close> that discards the rest of the request body.\<close>

function discard_body :: "BodyReader \<Rightarrow> world \<Rightarrow> world \<times> BodyReader \<times> error option" where
  "discard_body body w =
     (case read body w of
        (w1, body1, Inl e) \<Rightarrow> (w1, body1, Some e)
      | (w1, body1, Inr d) \<Rightarrow> if d = [] then (w1, body1, None) else discard_body body1 w1)"
  by pat_completeness auto
termination
  by (relation "measure (\<lambda>(body, w). remaining body)") (auto dest: read_remaining [OF sym])

text \<open>
  How a run of \<open>serveClient\<close> ends: it returns, or an exception leaves it.
\<close>

datatype outcome = Returned | Thrown error

text \<open>
  One round of the \<open>while (true)\<close> loop of \<open>serveClient\<close>: the state it leaves, and
  \<open>None\<close> when the loop goes on to its next round, \<open>Some\<close> of the outcome when the round
  leaves the function.  For the route \<open>/echo\<close> the response body is the request's reader
  itself, one object under two names: what writing the response has read is gone
  for the discarding loop too.
\<close>

definition serve_round :: "world \<Rightarrow> world \<times> outcome option" where
  "serve_round w =
     (case cutMessage (w_buf w) of
        (b1, Inl e) \<Rightarrow> (w\<lparr>w_buf := b1\<rparr>, Some (Thrown e))
      | (b1, Inr None) \<Rightarrow>
          (case soRead (w_conn w) of
             (c1, Inl e) \<Rightarrow> (\<lparr>w_conn = c1, w_buf = b1\<rparr>, Some (Thrown e))
           | (c1, Inr d) \<Rightarrow>
               (let b2 = bufPush b1 d in
                if d = [] \<and> buf_length b2 = 0 then (\<lparr>w_conn = c1, w_buf = b2\<rparr>, Some Returned)
                else if d = []
                then (\<lparr>w_conn = c1, w_buf = b2\<rparr>, Some (Thrown (HTTPError 400 ''Unexpected EOF.'')))
                else (\<lparr>w_conn = c1, w_buf = b2\<rparr>, None)))
      | (b1, Inr (Some msg)) \<Rightarrow>
          (case readerFromReq (w_conn w) b1 msg of
             Inl e \<Rightarrow> (w\<lparr>w_buf := b1\<rparr>, Some (Thrown e))
           | Inr reqBody \<Rightarrow>
               (case writeHTTPRes (w\<lparr>w_buf := b1\<rparr>) (handleReq msg reqBody) of
                  (w2, body2, Some e) \<Rightarrow> (w2, Some (Thrown e))
                | (w2, body2, None) \<Rightarrow>
                    if req_version msg = ''1.0'' then (w2, Some Returned)
                    else (case discard_body (if req_uri msg = ''/echo'' then body2 else reqBody) w2 of
                            (w3, body3, Some e) \<Rightarrow> (w3, Some (Thrown e))
                          | (w3, body3, None) \<Rightarrow> (w3, None)))))"

text \<open>
  The loop itself, bounded by a number of rounds: \<open>None\<close> when the rounds are used up
  and the loop is still running.
\<close>

fun serveClient_rounds :: "nat \<Rightarrow> world \<Rightarrow> world \<times> outcome option" where
  "serveClient_rounds 0 w = (w, None)"
| "serveClient_rounds (Suc n) w =
     (case serve_round w of
        (w1, None) \<Rightarrow> serveClient_rounds n w1
      | (w1, Some r) \<Rightarrow> (w1, Some r))"

text \<open>\<open>serveClient\<close> starts the loop on an empty buffer.\<close>

definition serveClient :: "nat \<Rightarrow> TCPConn \<Rightarrow> world \<times> outcome option" where
  "serveClient n conn = serveClient_rounds n \<lparr>w_conn = conn, w_buf = emptyBuf\<rparr>"


section \<open>Facts about splitting\<close>

text \<open>
  The equations of the loops are unfolded by hand in the proofs (as rewrite rules they
  would unfold without end).
\<close>

declare grow.simps [simp del]

declare split.simps [simp del]

declare splitlines_loop.simps [simp del]

declare decimal.simps [simp del]

declare exponent53.simps [simp del]

declare write_body.simps [simp del]

declare discard_body.simps [simp del]

lemma split_no_sep: "c \<notin> set s \<Longrightarrow> split c s = [s]"
proof -
  assume "c \<notin> set s"
  then have "\<forall>x\<in>set s. x \<noteq> c" by auto
  then have tw: "takeWhile (\<lambda>x. x \<noteq> c) s = s" and dw: "dropWhile (\<lambda>x. x \<noteq> c) s = []"
    by simp_all
  show ?thesis by (subst split.simps) (simp only: tw dw list.case)
qed

lemma split_sep: "c \<notin> set a \<Longrightarrow> split c (a @ c # r) = a # split c r"
proof -
  assume "c \<notin> set a"
  then have a: "\<And>x. x \<in> set a \<Longrightarrow> x \<noteq> c" by auto
  have "takeWhile (\<lambda>x. x \<noteq> c) (a @ c # r) = a" "dropWhile (\<lambda>x. x \<noteq> c) (a @ c # r) = c # r"
    using a by (simp_all add: takeWhile_append2 dropWhile_append2)
  then show ?thesis by (subst split.simps) simp
qed

lemma split_first: "c \<in> set s \<Longrightarrow>
  split c s = takeWhile (\<lambda>x. x \<noteq> c) s # split c (tl (dropWhile (\<lambda>x. x \<noteq> c) s))"
  by (subst split.simps) (auto split: list.splits simp: dropWhile_eq_Nil_conv)

lemma length_split: "length (split c s) = Suc (count_list s c)"
proof (induction s rule: length_induct)
  case (1 s)
  show ?case
  proof (cases "c \<in> set s")
    case False
    then show ?thesis by (simp add: split_no_sep count_list_0_iff)
  next
    case True
    then obtain a r where s: "s = a @ c # r" and a: "c \<notin> set a"
      by (meson split_list_first)
    have "length r < length s" using s by simp
    with 1 have "length (split c r) = Suc (count_list r c)" by blast
    with a show ?thesis by (simp add: s split_sep count_list_0_iff)
  qed
qed

lemma split_second:
  assumes "c \<in> set s"
  shows "\<exists>rest. split c s =
     takeWhile (\<lambda>x. x \<noteq> c) s # takeWhile (\<lambda>x. x \<noteq> c) (tl (dropWhile (\<lambda>x. x \<noteq> c) s)) # rest"
proof -
  have "split c (tl (dropWhile (\<lambda>x. x \<noteq> c) s)) =
      takeWhile (\<lambda>x. x \<noteq> c) (tl (dropWhile (\<lambda>x. x \<noteq> c) s)) #
       (case dropWhile (\<lambda>x. x \<noteq> c) (tl (dropWhile (\<lambda>x. x \<noteq> c) s)) of
          [] \<Rightarrow> [] | _ # rest \<Rightarrow> split c rest)"
    by (subst split.simps) simp
  with split_first [OF assms] show ?thesis by simp
qed

lemma split_hd: "\<exists>rest. split c s = takeWhile (\<lambda>x. x \<noteq> c) s # rest"
  by (subst split.simps) simp

lemma split_three:
  assumes "c \<notin> set m" "c \<notin> set u" "c \<notin> set t"
  shows "split c (m @ c # u @ c # t) = [m, u, t]"
  using assms by (simp add: split_sep split_no_sep)

lemma indexOf0_single: "(indexOf0 [c] s = None) = (c \<notin> set s)"
  by (induction s) auto

lemma buf_includes_single: "buf_includes s [c] = (c \<in> set s)"
  by (simp add: buf_includes_def indexOf_def indexOf0_single)

section \<open>Facts about decoding\<close>

lemma is_ascii_append [simp]: "is_ascii (a @ b) = (is_ascii a \<and> is_ascii b)"
  by (simp add: is_ascii_def)

lemma is_ascii_Cons: "is_ascii (c # s) = ((of_char c :: nat) < 128 \<and> is_ascii s)"
  by (simp add: is_ascii_def)

lemma is_ascii_takeWhile: "is_ascii s \<Longrightarrow> is_ascii (takeWhile P s)"
  by (induction s) (auto simp: is_ascii_def)

lemma toString_ascii: "is_ascii s \<Longrightarrow> toString s = s"
  unfolding toString_def
  by (induction s) (simp_all add: is_ascii_def)

section \<open>The request line\<close>

lemma methods_no_space: "m \<in> set kHttpMethods \<Longrightarrow> CHR '' '' \<notin> set m"
  by (auto simp: kHttpMethods_def)

lemma methods_ascii: "m \<in> set kHttpMethods \<Longrightarrow> is_ascii m"
  by (auto simp: kHttpMethods_def is_ascii_def)

lemma validateURI_iff:
  "validateURI u m =
     (u \<noteq> [] \<and> CHR '' '' \<notin> set u \<and> (m = ''CONNECT'' \<longrightarrow> CHR '':'' \<in> set u) \<and>
      (m = ''OPTIONS'' \<longrightarrow> length u = 1))"
  by (auto simp: validateURI_def buf_includes_single)

text \<open>
  A line of ASCII text made of three tokens: the checks of the method, of the URI and
  of the version, in this order.
\<close>

lemma parseRequestLine_tokens:
  assumes "CHR '' '' \<notin> set m" "CHR '' '' \<notin> set u" "CHR '' '' \<notin> set t"
    and "is_ascii m" "is_ascii u" "is_ascii t"
  shows "parseRequestLine (m @ CHR '' '' # u @ CHR '' '' # t) =
    (if m \<notin> set kHttpMethods then Inl (HTTPError 405 ''Method not allowed'')
     else if \<not> validateURI u m then Inl (HTTPError 400 ''Bad URI'')
     else (case split (CHR ''/'') t of
             _ # v # _ \<Rightarrow>
               if v \<noteq> ''1.0'' \<and> v \<noteq> ''1.1''
               then Inl (HTTPError 505 ''HTTP version not supported'')
               else Inr (m, u, v)
           | _ \<Rightarrow> Inl (HTTPError 505 ''HTTP version not supported'')))"
proof -
  have "is_ascii (m @ CHR '' '' # u @ CHR '' '' # t)"
    using assms(4-6) by (simp add: is_ascii_Cons)
  then have "toString (m @ CHR '' '' # u @ CHR '' '' # t) = m @ CHR '' '' # u @ CHR '' '' # t"
    by (rule toString_ascii)
  then show ?thesis
    using assms(1-3) by (simp add: parseRequestLine_def split_three Let_def)
qed

text \<open>
  Claim C4: a version, the text after \<open>HTTP/\<close>, other than \<open>1.0\<close> or \<open>1.1\<close> raises 505.
  The code takes as version the second piece of the third token split at \<open>/\<close>, and
  so only the text up to the next \<open>/\<close>: for the request line \<open>GET / HTTP/1.1/x\<close> the
  text after \<open>HTTP/\<close> is \<open>1.1/x\<close>, neither \<open>1.0\<close> nor \<open>1.1\<close>, and the line is accepted
  with version \<open>1.1\<close>, by the request-line parser and by the parser of the header block.
\<close>

theorem parseRequestLine_accepts_version_with_tail:
  "take 5 ''HTTP/1.1/x'' = ''HTTP/'' \<and>
   drop 5 ''HTTP/1.1/x'' \<noteq> ''1.0'' \<and> drop 5 ''HTTP/1.1/x'' \<noteq> ''1.1'' \<and>
   parseRequestLine ''GET / HTTP/1.1/x'' = Inr (''GET'', ''/'', ''1.1'') \<and>
   parseHTTPReq (''GET / HTTP/1.1/x'' @ CRLF @ CRLF) =
     Inr \<lparr>req_method = ''GET'', req_uri = ''/'', req_version = ''1.1'', req_headers = []\<rparr>"
  by code_simp

text \<open>
  Claim C10: the version check reads only what follows the first \<open>/\<close> of the third
  token.  On a line of ASCII text with a listed method and a URI valid for it, a third
  token \<open>p/1.0\<close> or \<open>p/1.1\<close> is accepted with that version whatever \<open>p\<close> is
  (\<open>FOO/1.1\<close> for one), and a third token without \<open>/\<close> raises 505.
\<close>

theorem parseRequestLine_version_after_slash:
  assumes "m \<in> set kHttpMethods" and "validateURI u m" and "is_ascii u"
    and "CHR '' '' \<notin> set p" and "CHR ''/'' \<notin> set p" and "is_ascii p"
    and "v = ''1.0'' \<or> v = ''1.1''"
    and "CHR '' '' \<notin> set t" and "CHR ''/'' \<notin> set t" and "is_ascii t"
  shows "parseRequestLine (m @ '' '' @ u @ '' '' @ p @ ''/'' @ v) = Inr (m, u, v) \<and>
         parseRequestLine (m @ '' '' @ u @ '' '' @ t) =
           Inl (HTTPError 505 ''HTTP version not supported'')"
proof -
  have m: "CHR '' '' \<notin> set m" using assms(1) by (rule methods_no_space)
  have ma: "is_ascii m" using assms(1) by (rule methods_ascii)
  have u: "CHR '' '' \<notin> set u" using assms(2) by (simp add: validateURI_iff)
  have v: "CHR '' '' \<notin> set v" "CHR ''/'' \<notin> set v" "is_ascii v"
    using assms(7) by (auto simp: is_ascii_def)
  have "split (CHR ''/'') (p @ CHR ''/'' # v) = [p, v]"
    using assms(5) v by (simp add: split_sep split_no_sep)
  moreover have "CHR '' '' \<notin> set (p @ CHR ''/'' # v)" using assms(4) v by simp
  moreover have "is_ascii (p @ CHR ''/'' # v)" using assms(6) v by (simp add: is_ascii_Cons)
  ultimately have "parseRequestLine (m @ CHR '' '' # u @ CHR '' '' # p @ CHR ''/'' # v) = Inr (m, u, v)"
    using m ma u assms(1,2,3,7) by (auto simp: parseRequestLine_tokens)
  moreover have "parseRequestLine (m @ CHR '' '' # u @ CHR '' '' # t) =
      Inl (HTTPError 505 ''HTTP version not supported'')"
    using m ma u assms(1,2,3,8,9,10) by (simp add: parseRequestLine_tokens split_no_sep)
  ultimately show ?thesis by simp
qed

theorem parseRequestLine_version_after_slash_witness:
  "parseRequestLine ''GET / FOO/1.1'' = Inr (''GET'', ''/'', ''1.1'') \<and>
   parseRequestLine ''GET / HTTP'' = Inl (HTTPError 505 ''HTTP version not supported'')"
proof -
  have a: "''GET'' \<in> set kHttpMethods" by (simp add: kHttpMethods_def)
  have b: "validateURI ''/'' ''GET''" by (simp add: validateURI_iff)
  have c: "is_ascii ''/''" "is_ascii ''FOO''" "is_ascii ''HTTP''" by code_simp+
  show ?thesis
    using parseRequestLine_version_after_slash
      [OF a b c(1) _ _ c(2) _ _ _ c(3), of "''1.1''"]
    by simp
qed

section \<open>Header lines of a header block\<close>

text \<open>
  A header block is a request line, header lines and an empty line, each ended by CRLF
  and none containing CRLF; \<open>splitlines\<close> gives these lines back.
\<close>

lemma indexOf0_CRLF_line:
  "indexOf0 CRLF l = None \<Longrightarrow> indexOf0 CRLF (l @ CRLF @ r) = Some (length l)"
proof (induction l)
  case Nil
  show ?case by (simp add: CRLF_def)
next
  case (Cons x xs)
  from Cons.prems have no: "take 2 (x # xs) \<noteq> CRLF" and rest: "indexOf0 CRLF xs = None"
    by (auto simp: CRLF_def split: if_splits)
  have "take 2 (x # xs @ CRLF @ r) \<noteq> CRLF"
    using no by (cases xs) (auto simp: CRLF_def)
  with Cons.IH [OF rest] show ?case by (simp add: CRLF_def)
qed

lemma buf_includes_indexOf0: "buf_includes l n = (indexOf0 n l \<noteq> None)"
  by (simp add: buf_includes_def indexOf_def)

lemma splitlines_loop_block:
  assumes "\<forall>l \<in> set ls. indexOf0 CRLF l = None" and "pre \<noteq> [] \<or> ls = [] \<or> hd ls \<noteq> []"
  shows "splitlines_loop (pre @ concat (map (\<lambda>l. l @ CRLF) ls)) (length pre) acc = acc @ ls"
  using assms
proof (induction ls arbitrary: pre acc)
  case Nil
  show ?case by (subst splitlines_loop.simps) simp
next
  case (Cons l ls)
  let ?d = "pre @ concat (map (\<lambda>l. l @ CRLF) (l # ls))"
  let ?pre' = "pre @ l @ CRLF"
  have l: "indexOf0 CRLF l = None" using Cons.prems(1) by simp
  have d: "?d = ?pre' @ concat (map (\<lambda>l. l @ CRLF) ls)" by simp
  have len: "length ?pre' = length l + length pre + 2" by (simp add: CRLF_def)
  have "drop (length pre) ?d = l @ CRLF @ concat (map (\<lambda>l. l @ CRLF) ls)" by simp
  then have idx: "indexOf ?d CRLF (length pre) = Some (length l + length pre)"
    using indexOf0_CRLF_line [OF l] by (simp add: indexOf_def)
  have lt: "length pre < length ?d" by (simp add: CRLF_def)
  have sub: "subarray ?d (length pre) (length l + length pre) = l"
    by (simp add: subarray_def)
  have nz: "length l + length pre \<noteq> 0" using Cons.prems(2) by auto
  have "splitlines_loop ?d (length pre) acc =
          splitlines_loop ?d (length l + length pre + 2) (acc @ [l])"
    by (subst splitlines_loop.simps) (simp only: lt idx sub nz if_True option.case not_False_eq_True)
  also have "\<dots> = splitlines_loop (?pre' @ concat (map (\<lambda>l. l @ CRLF) ls)) (length ?pre') (acc @ [l])"
    by (simp only: d len)
  also have "\<dots> = (acc @ [l]) @ ls"
    using Cons.prems(1) by (intro Cons.IH) (simp_all add: CRLF_def)
  finally show ?case by simp
qed

lemma splitlines_block:
  assumes "\<forall>l \<in> set (l0 # hs). indexOf0 CRLF l = None" and "l0 \<noteq> []"
  shows "splitlines (concat (map (\<lambda>l. l @ CRLF) (l0 # hs)) @ CRLF) = l0 # hs @ [[]]"
proof -
  have "splitlines_loop ([] @ concat (map (\<lambda>l. l @ CRLF) ((l0 # hs) @ [[]]))) (length ([] :: Buffer)) []
          = [] @ ((l0 # hs) @ [[]])"
    using assms by (intro splitlines_loop_block) (auto simp: CRLF_def)
  then show ?thesis by (simp add: splitlines_def)
qed

lemma headers_loop_all:
  "headers_loop hs acc =
     (if list_all validateHeader hs then Inr (acc @ hs) else Inl (HTTPError 400 ''Bad header''))"
  by (induction hs arbitrary: acc) auto

lemma endsWith_single: "endsWith k [c] = (k \<noteq> [] \<and> last k = c)"
proof (cases k rule: rev_cases)
  case Nil
  then show ?thesis by (simp add: endsWith_def)
next
  case (snoc ys y)
  then show ?thesis by (simp add: endsWith_def)
qed

text \<open>
  The header lines of ASCII text that \<open>validateHeader\<close> lets pass: the value it tests
  is the text between the first colon and the next one.
\<close>

lemma validateHeader_ascii:
  assumes "is_ascii h"
  shows "validateHeader h =
     (CHR '':'' \<in> set h \<and>
      takeWhile (\<lambda>c. c \<noteq> CHR '':'') h \<noteq> [] \<and>
      last (takeWhile (\<lambda>c. c \<noteq> CHR '':'') h) \<noteq> CHR '' '' \<and>
      takeWhile (\<lambda>c. c \<noteq> CHR '':'') (tl (dropWhile (\<lambda>c. c \<noteq> CHR '':'') h)) \<noteq> [])"
proof (cases "CHR '':'' \<in> set h")
  case False
  then show ?thesis by (simp add: validateHeader_def buf_includes_single)
next
  case True
  then have ne: "h \<noteq> []" by auto
  from split_second [OF True] obtain rest where
    "split (CHR '':'') h = takeWhile (\<lambda>x. x \<noteq> CHR '':'') h #
       takeWhile (\<lambda>x. x \<noteq> CHR '':'') (tl (dropWhile (\<lambda>x. x \<noteq> CHR '':'') h)) # rest"
    by blast
  with True ne show ?thesis
    by (auto simp: validateHeader_def buf_includes_single split_limit_def endsWith_single
        toString_ascii [OF assms])
qed

lemma parseHTTPReq_header_block:
  assumes "parseRequestLine l0 = Inr (m, u, v)"
    and "\<forall>l \<in> set (l0 # hs). \<not> buf_includes l CRLF"
    and "l0 \<noteq> []"
  shows "parseHTTPReq (concat (map (\<lambda>l. l @ CRLF) (l0 # hs)) @ CRLF) =
     (if list_all validateHeader hs
      then Inr \<lparr>req_method = m, req_uri = u, req_version = v, req_headers = hs\<rparr>
      else Inl (HTTPError 400 ''Bad header''))"
proof -
  have "\<forall>l \<in> set (l0 # hs). indexOf0 CRLF l = None"
    using assms(2) by (simp add: buf_includes_indexOf0)
  then have lines: "splitlines (concat (map (\<lambda>l. l @ CRLF) (l0 # hs)) @ CRLF) = l0 # hs @ [[]]"
    using assms(3) by (rule splitlines_block)
  have "parseHTTPReq (concat (map (\<lambda>l. l @ CRLF) (l0 # hs)) @ CRLF) =
      (case headers_loop hs [] of
         Inl e \<Rightarrow> Inl e
       | Inr headers \<Rightarrow>
           Inr \<lparr>req_method = m, req_uri = u, req_version = v, req_headers = headers\<rparr>)"
    by (simp only: parseHTTPReq_def lines list.case assms(1) sum.case prod.case butlast_snoc)
  then show ?thesis
    by (simp add: headers_loop_all)
qed

text \<open>
  Claim C5: a header line is refused exactly when it has no colon, or splitting it at
  its first colon does not give two non-empty parts, or its key ends in a space.  The
  code tests the second piece of \<open>split(":", 2)\<close>, which ends at the next colon: the
  line \<open>Host::x\<close> has a colon, the key \<open>Host\<close> (not empty, no space at its end) and
  the non-empty rest \<open>:x\<close>, passes the check of the claim, and is refused by
  \<open>validateHeader\<close>, so that the header block raises 400 \<open>Bad header\<close>.
\<close>

theorem parseHTTPReq_refuses_value_starting_with_colon:
  "CHR '':'' \<in> set ''Host::x'' \<and>
   takeWhile (\<lambda>c. c \<noteq> CHR '':'') ''Host::x'' = ''Host'' \<and>
   tl (dropWhile (\<lambda>c. c \<noteq> CHR '':'') ''Host::x'') = '':x'' \<and>
   \<not> endsWith ''Host'' '' '' \<and>
   split_limit (CHR '':'') 2 ''Host::x'' = [''Host'', []] \<and>
   \<not> validateHeader ''Host::x'' \<and>
   parseHTTPReq (''GET / HTTP/1.1'' @ CRLF @ ''Host::x'' @ CRLF @ CRLF) =
     Inl (HTTPError 400 ''Bad header'')"
  by code_simp

section \<open>Header lookup\<close>

lemma getField_skip:
  assumes "is_ascii h"
    and "toLowerCase (takeWhile (\<lambda>c. c \<noteq> CHR '':'') h) \<noteq> toLowerCase key"
  shows "getField (h # hs) key = getField hs key"
proof -
  obtain rest where "split (CHR '':'') h = takeWhile (\<lambda>c. c \<noteq> CHR '':'') h # rest"
    using split_hd by blast
  with assms show ?thesis by (simp add: toString_ascii)
qed

text \<open>
  Claim C9: for a header line \<open>k:v:rest\<close> whose key matches (letter case ignored), no
  earlier line having the key, \<open>getField\<close> returns \<open>v\<close>, the text between the first and
  the second colon, and nothing of what follows the second colon: for
  \<open>Host: example.com:8080\<close> it returns \<open> example.com\<close>.  The lines looked at and the
  key are ASCII text.
\<close>

theorem getField_value_cut_at_second_colon:
  assumes "CHR '':'' \<notin> set k" and "CHR '':'' \<notin> set v"
    and "toLowerCase k = toLowerCase key"
    and "\<forall>h \<in> set before. toLowerCase (takeWhile (\<lambda>c. c \<noteq> CHR '':'') h) \<noteq> toLowerCase key"
    and "is_ascii key" and "\<forall>h \<in> set before. is_ascii h"
    and "is_ascii k" and "is_ascii v" and "is_ascii rest"
  shows "getField (before @ (k @ '':'' @ v @ '':'' @ rest) # after) key = Inr (Some v)"
  using assms(4,6)
proof (induction before)
  case Nil
  have "is_ascii (k @ CHR '':'' # v @ CHR '':'' # rest)"
    using assms(7-9) by (simp add: is_ascii_Cons)
  then have "toString (k @ CHR '':'' # v @ CHR '':'' # rest) = k @ CHR '':'' # v @ CHR '':'' # rest"
    by (rule toString_ascii)
  moreover have "split (CHR '':'') (k @ CHR '':'' # v @ CHR '':'' # rest) = k # v # split (CHR '':'') rest"
    using assms(1,2) by (simp add: split_sep)
  ultimately show ?case using assms(3) by simp
next
  case (Cons h hs)
  then show ?case by (simp add: getField_skip del: getField.simps)
qed

theorem getField_value_cut_at_second_colon_witness:
  "getField [''Accept: */*'', ''Host: example.com:8080'', ''Host: b''] ''host'' =
     Inr (Some '' example.com'')"
proof -
  have k: "CHR '':'' \<notin> set ''Host''" and v: "CHR '':'' \<notin> set '' example.com''"
    by simp_all
  have key: "toLowerCase ''Host'' = toLowerCase ''host''"
    by code_simp
  have before: "\<forall>h \<in> set [''Accept: */*''].
      toLowerCase (takeWhile (\<lambda>c. c \<noteq> CHR '':'') h) \<noteq> toLowerCase ''host''"
    by code_simp
  have a: "is_ascii ''host''" "\<forall>h \<in> set [''Accept: */*'']. is_ascii h"
    "is_ascii ''Host''" "is_ascii '' example.com''" "is_ascii ''8080''"
    by code_simp+
  show ?thesis
    using getField_value_cut_at_second_colon
      [OF k v key before a, of "[''Host: b'']"]
    by simp
qed

section \<open>The dynamic buffer under pushes and pops\<close>

text \<open>
  Claim C2: after every push and pop (no pop taking more than the unconsumed length)
  \<open>begin + length \<le> capacity\<close> holds.  The code breaks it: \<open>bufPush\<close> tests the free
  space behind the window (\<open>data.length - begin < newLen\<close>) but grows the capacity only
  up to \<open>newLen\<close>, without \<open>begin\<close>.  Pushing 32 bytes on the empty buffer, popping 16
  (no compaction, since 16 is not more than half of 32) and pushing one byte leaves
  capacity 32, \<open>begin = 16\<close> and \<open>length = 17\<close>: the window ends behind the data, and
  the byte pushed last is not stored.
\<close>

theorem bufPush_window_exceeds_capacity:
  "(let b1 = bufPush emptyBuf (replicate 32 (CHR ''a''));
        b2 = fst (bufPop b1 16);
        b3 = bufPush b2 ''b''
    in snd (bufPop b1 16) = None \<and>
       buf_begin b3 = 16 \<and> buf_length b3 = 17 \<and> length (buf_data b3) = 32 \<and>
       length (buf_data b3) < buf_begin b3 + buf_length b3 \<and>
       subarray (buf_data b3) (buf_begin b3) (buf_begin b3 + buf_length b3) =
         replicate 16 (CHR ''a''))"
  by code_simp

section \<open>The message framer on a complete header block\<close>

text \<open>
  When \<open>bufPop\<close> throws: exactly when it compacts and the end it passes to \<open>fill\<close>,
  the old length plus the advanced \<open>begin\<close>, lies behind the buffer.
\<close>

lemma bufPop_raises:
  "snd (bufPop buf count) =
     (if length (buf_data buf) < 2 * (buf_begin buf + count) \<and>
         length (buf_data buf) < buf_length buf + (buf_begin buf + count)
      then Some RangeError else None)"
  by (simp add: bufPop_def Let_def buffer_fill_def copyWithin_def split: sum.splits)

text \<open>
  Without a terminator in the window the framer leaves the buffer as it is, and raises
  413 for more than 8192 unconsumed bytes.
\<close>

lemma cutMessage_no_terminator:
  assumes "indexOf (subarray (buf_data buf) (buf_begin buf) (buf_begin buf + buf_length buf))
             (CRLF @ CRLF) 0 = None"
  shows "cutMessage buf =
     (buf, if kMaxHeaderLen < buf_length buf then Inl (HTTPError 413 ''Header too long'')
           else Inr None)"
  using assms by (simp add: cutMessage_def Let_def)

text \<open>
  A first chunk that is one complete header block of more than 16 bytes never gets
  through the framer: the capacity grown for it is less than twice its length, so
  popping it compacts and \<open>fill\<close> throws.
\<close>

lemma grow_ge: "newLen \<le> grow cap newLen"
  by (induction cap newLen rule: grow.induct) (subst grow.simps, auto)

lemma grow_lt_double: "max cap 32 < 2 * newLen \<Longrightarrow> grow cap newLen < 2 * newLen"
  by (induction cap newLen rule: grow.induct) (subst grow.simps, auto)

lemma bufPush_emptyBuf:
  assumes "d \<noteq> []"
  shows "bufPush emptyBuf d =
     \<lparr>buf_data = d @ replicate (grow 0 (length d) - length d) (CHR 0x00),
      buf_length = length d, buf_begin = 0\<rparr>"
  using assms grow_ge [of "length d" 0]
  by (simp add: bufPush_def emptyBuf_def alloc_def buffer_copy_def Let_def min_def)

lemma cutMessage_first_chunk_raises:
  assumes "16 < length d"
    and "indexOf d (CRLF @ CRLF) 0 = Some idx" and "idx + 4 = length d"
    and "parseHTTPReq d = Inr msg"
  shows "snd (cutMessage (bufPush emptyBuf d)) = Inl RangeError"
proof -
  let ?cap = "grow 0 (length d)"
  let ?b = "bufPush emptyBuf d"
  have d: "d \<noteq> []" using assms(1) by auto
  note b = bufPush_emptyBuf [OF d]
  have cap: "length d \<le> ?cap" "?cap < 2 * length d"
    using grow_ge [of "length d" 0] grow_lt_double [of 0 "length d"] assms(1) by simp_all
  have win: "subarray (buf_data ?b) (buf_begin ?b) (buf_begin ?b + buf_length ?b) = d"
    by (simp add: b subarray_def)
  have blk: "subarray (buf_data ?b) (buf_begin ?b) (idx + buf_begin ?b + 4) = d"
    using assms(3) by (simp add: b subarray_def)
  have len: "length (buf_data ?b) = ?cap"
    using cap by (simp add: b)
  have "snd (bufPop ?b (idx + 4)) = Some RangeError"
    using cap assms(3) by (simp add: bufPop_raises len) (simp add: b)
  then obtain b1 where "bufPop ?b (idx + 4) = (b1, Some RangeError)"
    by (cases "bufPop ?b (idx + 4)") auto
  then show ?thesis
    using assms(2,4) by (simp add: cutMessage_def Let_def win blk)
qed

text \<open>
  Claim C3: when the terminator is present, \<open>cutMessage\<close> parses the header block and
  pops exactly its bytes.  On the request \<open>GET / HTTP/1.1\<close>, \<open>Host: a\<close> (27 bytes),
  pushed on the empty buffer (capacity 32), the block parses, and \<open>bufPop\<close> then
  compacts (27 is more than half of 32) and calls \<open>fill(0, 27, 54)\<close>, whose end lies
  behind the buffer: a \<open>RangeError\<close> leaves \<open>cutMessage\<close>, with \<open>begin\<close> advanced and
  \<open>length\<close> still 27.
\<close>

theorem cutMessage_header_only_chunk_raises:
  "(let block = ''GET / HTTP/1.1'' @ CRLF @ ''Host: a'' @ CRLF @ CRLF;
        r = cutMessage (bufPush emptyBuf block)
    in parseHTTPReq block =
         Inr \<lparr>req_method = ''GET'', req_uri = ''/'', req_version = ''1.1'',
              req_headers = [''Host: a'']\<rparr> \<and>
       snd r = Inl RangeError \<and>
       buf_begin (fst r) = 27 \<and> buf_length (fst r) = 27 \<and> length (buf_data (fst r)) = 32)"
  by code_simp

section \<open>Body-reader selection\<close>

text \<open>
  Claim C1: the chunked reader decodes the chunk framing.  The code has no chunked
  reader: \<open>readerFromChunked\<close> throws for every connection and buffer, so a request
  with the header \<open>Transfer-Encoding:chunked\<close> gets no reader; and with the usual
  spelling \<open>Transfer-Encoding: chunked\<close> the value \<open>getField\<close> returns starts with a
  space, is not equal to \<open>chunked\<close>, and selection ends in \<open>Not implemented\<close>.
  A connection that delivers a chunked \<open>POST /echo\<close> with the body of the claim
  (\<open>3\<close>, \<open>foo\<close>, \<open>0\<close>) in one chunk ends with that exception, nothing written.
\<close>

theorem readerFromChunked_not_implemented:
  "readerFromChunked conn buf = Inl (Error ''Function not implemented.'') \<and>
   readerFromReq conn buf
     \<lparr>req_method = ''POST'', req_uri = ''/echo'', req_version = ''1.1'',
      req_headers = [''Transfer-Encoding:chunked'']\<rparr> = Inl (Error ''Function not implemented.'') \<and>
   readerFromReq conn buf
     \<lparr>req_method = ''POST'', req_uri = ''/echo'', req_version = ''1.1'',
      req_headers = [''Transfer-Encoding: chunked'']\<rparr> = Inl (Error ''Not implemented'') \<and>
   snd (serveClient 3
          \<lparr>pending = [''POST /echo HTTP/1.1'' @ CRLF @ ''Transfer-Encoding:chunked'' @ CRLF @
                       ''Host: abcd'' @ CRLF @ CRLF @
                       ''3'' @ CRLF @ ''foo'' @ CRLF @ ''0'' @ CRLF @ CRLF],
           written = [], conn_err = None\<rparr>) =
     Some (Thrown (Error ''Function not implemented.''))"
  by code_simp

text \<open>
  Claim C6: every decimal \<open>Content-Length\<close>, zero included, is accepted.  The code
  rejects zero: \<open>parseDec\<close> is \<open>parseInt(arg0, 10) || NaN\<close>, zero is falsy, and the
  \<open>NaN\<close> raises \<open>Bad Content-Length\<close>.  A connection that delivers two \<open>POST\<close>
  requests with \<open>Content-Length: 0\<close> in one chunk ends with that error on the first.
\<close>

theorem readerFromReq_rejects_zero_length:
  "parseInt '' 0'' = Some 0 \<and> parseDec '' 0'' = None \<and>
   readerFromReq conn buf
     \<lparr>req_method = ''POST'', req_uri = ''/echo'', req_version = ''1.1'',
      req_headers = [''Content-Length: 0'']\<rparr> = Inl (HTTPError 400 ''Bad Content-Length'') \<and>
   snd (serveClient 3
          \<lparr>pending = [''POST /a HTTP/1.1'' @ CRLF @ ''Content-Length: 0'' @ CRLF @ CRLF @
                       ''POST /b HTTP/1.1'' @ CRLF @ ''Content-Length: 0'' @ CRLF @ CRLF],
           written = [], conn_err = None\<rparr>) =
     Some (Thrown (HTTPError 400 ''Bad Content-Length''))"
  by code_simp

section \<open>The length-bounded reader\<close>

text \<open>
  A \<open>read\<close> with bytes in the buffer and length remaining takes the smaller of the
  two numbers; it returns those bytes of the window unless \<open>bufPop\<close> throws.
\<close>

lemma read_buffered:
  assumes "0 < bodyLen" and "0 < buf_length (w_buf w)"
  shows "snd (snd (read (FromConnLength n bodyLen) w)) =
     (let a = min (buf_length (w_buf w)) bodyLen in
      if length (buf_data (w_buf w)) < 2 * (buf_begin (w_buf w) + a) \<and>
         length (buf_data (w_buf w)) < buf_length (w_buf w) + (buf_begin (w_buf w) + a)
      then Inl RangeError
      else Inr (subarray (buf_data (w_buf w)) (buf_begin (w_buf w)) (buf_begin (w_buf w) + a)))"
proof -
  let ?a = "min (buf_length (w_buf w)) bodyLen"
  obtain b2 e where pop: "bufPop (w_buf w) ?a = (b2, e)"
    by (cases "bufPop (w_buf w) ?a") auto
  then have "e = snd (bufPop (w_buf w) ?a)" by simp
  then have e: "e = (if length (buf_data (w_buf w)) < 2 * (buf_begin (w_buf w) + ?a) \<and>
         length (buf_data (w_buf w)) < buf_length (w_buf w) + (buf_begin (w_buf w) + ?a)
      then Some RangeError else None)"
    by (simp only: bufPop_raises)
  show ?thesis
    using assms pop e by (auto simp: Let_def)
qed

text \<open>
  Claim C7: every \<open>read\<close> of the length-bounded reader returns the bytes available, up
  to the remaining length.  One chunk holding \<open>POST /echo\<close> with \<open>Content-Length: 50\<close>
  and its 50 body bytes (93 bytes, capacity 128) is framed without compaction (the
  header block has 43 bytes); the first \<open>read\<close> takes the 50 bytes and pops them,
  \<open>bufPop\<close> compacts (93 is more than half of 128) and calls \<open>fill(0, 50, 143)\<close>: the
  \<open>read\<close> throws a \<open>RangeError\<close> instead of returning the body.
\<close>

theorem read_whole_body_raises:
  "(case cutMessage (bufPush emptyBuf
           (''POST /echo HTTP/1.1'' @ CRLF @ ''Content-Length: 50'' @ CRLF @ CRLF @
            replicate 50 (CHR ''a''))) of
      (b1, Inr (Some msg)) \<Rightarrow>
        (case readerFromReq \<lparr>pending = [], written = [], conn_err = None\<rparr> b1 msg of
           Inr r \<Rightarrow>
             r = FromConnLength 50 50 \<and>
             buf_begin b1 = 43 \<and> buf_length b1 = 50 \<and> length (buf_data b1) = 128 \<and>
             snd (snd (read r \<lparr>w_conn = \<lparr>pending = [], written = [], conn_err = None\<rparr>,
                                w_buf = b1\<rparr>)) = Inl RangeError
         | Inl e \<Rightarrow> False)
    | (b1, Inr None) \<Rightarrow> False
    | (b1, Inl e) \<Rightarrow> False)"
  by code_simp

section \<open>The connection loop on an HTTP/1.0 request\<close>

lemma read_written:
  assumes "read r w = (w1, r1, x)"
  shows "written (w_conn w1) = written (w_conn w)"
proof (cases r)
  case (FromMemory arg0 dn)
  with assms show ?thesis by (auto split: if_splits)
next
  case (FromConnLength n bodyLen)
  with assms show ?thesis
    by (auto simp: Let_def soRead_def split: if_splits prod.splits option.splits sum.splits list.splits)
qed

lemma write_body_written:
  "write_body r w = (w', r', e) \<Longrightarrow> \<exists>cs. written (w_conn w') = written (w_conn w) @ cs"
proof (induction r w arbitrary: w' r' e rule: write_body.induct)
  case (1 body w)
  obtain w1 body1 x where rd: "read body w = (w1, body1, x)"
    by (cases "read body w") auto
  have w1: "written (w_conn w1) = written (w_conn w)"
    using rd by (rule read_written)
  show ?case
  proof (cases x)
    case (Inl err)
    with 1 rd w1 show ?thesis
      by (subst (asm) write_body.simps) auto
  next
    case (Inr d)
    show ?thesis
    proof (cases "d = []")
      case True
      with 1 rd w1 Inr show ?thesis
        by (subst (asm) write_body.simps) auto
    next
      case False
      show ?thesis
      proof (cases "conn_err (w_conn w1)")
        case (Some err)
        with 1(2) rd w1 Inr False show ?thesis
          by (subst (asm) write_body.simps) (auto simp: soWrite_def)
      next
        case None
        let ?c2 = "(w_conn w1)\<lparr>written := written (w_conn w1) @ [d]\<rparr>"
        have sw: "soWrite (w_conn w1) d = (?c2, None)"
          using None by (simp add: soWrite_def)
        have "write_body body1 (w1\<lparr>w_conn := ?c2\<rparr>) = (w', r', e)"
          using 1(2) rd Inr False sw by (subst (asm) write_body.simps) simp
        from 1(1) [OF rd [symmetric] refl Inr False sw [symmetric] refl this]
        obtain cs where "written (w_conn w') = written (w_conn (w1\<lparr>w_conn := ?c2\<rparr>)) @ cs"
          by blast
        with w1 show ?thesis by simp
      qed
    qed
  qed
qed

lemma writeHTTPRes_written:
  assumes "writeHTTPRes w res = (w2, body2, None)"
  shows "\<exists>cs. cs \<noteq> [] \<and> written (w_conn w2) = written (w_conn w) @ cs"
proof -
  let ?head = "encodeHTTPRes (res\<lparr>res_headers := res_headers res @
      [''Content-Length: '' @ decimal (nat (reader_length (res_body res)))]\<rparr>)"
  let ?c1 = "(w_conn w)\<lparr>written := written (w_conn w) @ [?head]\<rparr>"
  from assms have "write_body (res_body res) (w\<lparr>w_conn := ?c1\<rparr>) = (w2, body2, None)"
    by (auto simp: writeHTTPRes_def soWrite_def Let_def split: if_splits option.splits)
  from write_body_written [OF this]
  obtain cs where "written (w_conn w2) = written (w_conn (w\<lparr>w_conn := ?c1\<rparr>)) @ cs"
    by blast
  then have "written (w_conn w2) = written (w_conn w) @ (?head # cs)" by simp
  then show ?thesis by blast
qed

lemma write_body_memory_buf:
  "w_buf (fst (write_body (FromMemory arg0 dn) w)) = w_buf w"
proof -
  have fin: "\<And>w. write_body (FromMemory arg0 True) w = (w, FromMemory arg0 True, None)"
    by (subst write_body.simps) simp
  show ?thesis
    by (subst write_body.simps) (auto simp: soWrite_def fin split: option.splits)
qed

lemma writeHTTPRes_memory_buf:
  "res_body res = FromMemory arg0 dn \<Longrightarrow> w_buf (fst (writeHTTPRes w res)) = w_buf w"
  by (auto simp: writeHTTPRes_def soWrite_def Let_def write_body_memory_buf split: option.splits)

lemma serve_round_version_1_0:
  assumes "cutMessage (w_buf w) = (b1, Inr (Some msg))" and "req_version msg = ''1.0''"
  shows "serve_round w =
     (case readerFromReq (w_conn w) b1 msg of
        Inl e \<Rightarrow> (w\<lparr>w_buf := b1\<rparr>, Some (Thrown e))
      | Inr reqBody \<Rightarrow>
          (case writeHTTPRes (w\<lparr>w_buf := b1\<rparr>) (handleReq msg reqBody) of
             (w2, body2, Some e) \<Rightarrow> (w2, Some (Thrown e))
           | (w2, body2, None) \<Rightarrow> (w2, Some Returned)))"
  using assms by (simp add: serve_round_def split: sum.splits prod.splits option.splits)

text \<open>
  Claim C8: when the framer hands the loop a request of version 1.0, the round that
  serves it is the last one.  Whatever number of rounds the loop may still run, it
  ends with that round's state and outcome (\<open>Returned\<close>, or an exception); no later
  round frames or serves a request.  For a route other than \<open>/echo\<close> the buffer is
  left as the framer left it, so request bytes already buffered stay there unread.
  When the function returns, the response has been written.
\<close>

theorem serveClient_closes_after_http_1_0:
  assumes "cutMessage (w_buf w) = (b1, Inr (Some msg))" and "req_version msg = ''1.0''"
  shows "serveClient_rounds (Suc n) w = serve_round w \<and>
         snd (serve_round w) \<noteq> None \<and>
         (req_uri msg \<noteq> ''/echo'' \<longrightarrow> w_buf (fst (serve_round w)) = b1) \<and>
         (snd (serve_round w) = Some Returned \<longrightarrow>
            (\<exists>cs. cs \<noteq> [] \<and>
               written (w_conn (fst (serve_round w))) = written (w_conn w) @ cs))"
proof -
  note sr = serve_round_version_1_0 [OF assms]
  have ends: "snd (serve_round w) \<noteq> None"
    by (simp add: sr split: sum.splits prod.splits option.splits)
  then have loop: "serveClient_rounds (Suc n) w = serve_round w"
    by (cases "serve_round w") (auto split: option.splits)
  have buf: "w_buf (fst (serve_round w)) = b1" if "req_uri msg \<noteq> ''/echo''"
  proof (cases "readerFromReq (w_conn w) b1 msg")
    case (Inl e)
    then show ?thesis by (simp add: sr)
  next
    case (Inr reqBody)
    have "res_body (handleReq msg reqBody) = FromMemory (''Hello From Nazarick'' @ [CHR 0x0A]) False"
      using that by (simp add: handleReq_def readerFromMemory_def)
    from writeHTTPRes_memory_buf [OF this, of "w\<lparr>w_buf := b1\<rparr>"]
    show ?thesis
      using Inr by (auto simp: sr split: prod.splits option.splits)
  qed
  have wr: "\<exists>cs. cs \<noteq> [] \<and> written (w_conn (fst (serve_round w))) = written (w_conn w) @ cs"
    if "snd (serve_round w) = Some Returned"
  proof (cases "readerFromReq (w_conn w) b1 msg")
    case (Inl e)
    with that show ?thesis by (simp add: sr)
  next
    case (Inr reqBody)
    obtain w2 body2 e where wh: "writeHTTPRes (w\<lparr>w_buf := b1\<rparr>) (handleReq msg reqBody) = (w2, body2, e)"
      by (cases "writeHTTPRes (w\<lparr>w_buf := b1\<rparr>) (handleReq msg reqBody)") auto
    with that Inr have e: "e = None" and w2: "fst (serve_round w) = w2"
      by (auto simp: sr split: option.splits)
    from writeHTTPRes_written [OF wh [unfolded e]] w2 show ?thesis by simp
  qed
  from loop ends buf wr show ?thesis by blast
qed

theorem serveClient_closes_after_http_1_0_witness:
  "(let second = ''GET /second HTTP/1.0'' @ CRLF @ CRLF;
        w = \<lparr>w_conn = \<lparr>pending = [], written = [], conn_err = None\<rparr>,
             w_buf = bufPush emptyBuf (''GET / HTTP/1.0'' @ CRLF @ CRLF @ second)\<rparr>;
        w' = fst (serve_round w)
    in serveClient_rounds 5 w = serve_round w \<and>
       snd (serve_round w) = Some Returned \<and>
       length (written (w_conn w')) = 2 \<and>
       subarray (buf_data (w_buf w')) (buf_begin (w_buf w'))
         (buf_begin (w_buf w') + buf_length (w_buf w')) = second)"
proof -
  let ?w = "\<lparr>w_conn = \<lparr>pending = [], written = [], conn_err = None\<rparr>,
             w_buf = bufPush emptyBuf
               (''GET / HTTP/1.0'' @ CRLF @ CRLF @ ''GET /second HTTP/1.0'' @ CRLF @ CRLF)\<rparr>"
  let ?msg = "\<lparr>req_method = ''GET'', req_uri = ''/'', req_version = ''1.0'', req_headers = []\<rparr>"
  have cut: "cutMessage (w_buf ?w) = (fst (cutMessage (w_buf ?w)), Inr (Some ?msg))"
    by code_simp
  have v: "req_version ?msg = ''1.0''"
    by simp
  have loop: "serveClient_rounds 5 ?w = serve_round ?w"
    using serveClient_closes_after_http_1_0 [OF cut v, of 4] by simp
  have rest: "snd (serve_round ?w) = Some Returned \<and>
       length (written (w_conn (fst (serve_round ?w)))) = 2 \<and>
       subarray (buf_data (w_buf (fst (serve_round ?w)))) (buf_begin (w_buf (fst (serve_round ?w))))
         (buf_begin (w_buf (fst (serve_round ?w))) + buf_length (w_buf (fst (serve_round ?w)))) =
       ''GET /second HTTP/1.0'' @ CRLF @ CRLF"
    by code_simp
  from loop rest show ?thesis by (simp only: Let_def) 
qed

end
